theory Spec2Isabelle
  imports
    Complex_Main
    "HOL-Library.List_Lexorder"
    "HOL-Library.Char_ord"
    "HOL-Library.Product_Lexorder"
begin

section \<open>Python strings\<close>

text \<open>
  A Python \<^verbatim>\<open>str\<close> is modelled as a \<^typ>\<open>string\<close>. Case folding and whitespace
  follow Python on the ASCII range; characters beyond ASCII are left alone by
  \<open>lower\<close> and are never whitespace. An \<^verbatim>\<open>Optional[str]\<close> is a
  \<^typ>\<open>string option\<close>, and Python's truth test of such a value (\<^verbatim>\<open>if v\<close>) is
  \<open>truthy\<close>: neither \<^verbatim>\<open>None\<close> nor the empty string.
\<close>

definition lower_char :: "char \<Rightarrow> char" where
  "lower_char c =
     (case map_of (zip ''ABCDEFGHIJKLMNOPQRSTUVWXYZ'' ''abcdefghijklmnopqrstuvwxyz'') c of
        Some d \<Rightarrow> d
      | None \<Rightarrow> c)"

definition lower :: "string \<Rightarrow> string" where
  "lower s = map lower_char s"

definition isspace :: "char \<Rightarrow> bool" where
  "isspace c \<longleftrightarrow>
     c \<in> set [CHR 0x09, CHR 0x0A, CHR 0x0B, CHR 0x0C, CHR 0x0D,
              CHR 0x1C, CHR 0x1D, CHR 0x1E, CHR 0x1F, CHR '' '']"

definition strip :: "string \<Rightarrow> string" where
  "strip s = rev (dropWhile isspace (rev (dropWhile isspace s)))"

fun truthy :: "string option \<Rightarrow> bool" where
  "truthy None = False"
| "truthy (Some s) = (s \<noteq> [])"

section \<open>The record store (database.py)\<close>

text \<open>
  The \<^verbatim>\<open>clients\<close> table is a list of rows in insertion order. The column
  \<^verbatim>\<open>is_active\<close> holds 1, 0 or NULL: \<open>Some True\<close>, \<open>Some False\<close>, \<open>None\<close>.
  Timestamps are the texts SQLite stores and compares. \<open>clients_seq\<close> is the
  high-water mark that \<^verbatim>\<open>AUTOINCREMENT\<close> keeps for the table. Rows hold values
  within the limits of the \<^verbatim>\<open>Client\<close> schema, so that reading a row back as a
  \<^verbatim>\<open>Client\<close> is the projection \<open>Client_of_row\<close>.
\<close>

record client_row =
  r_id :: int
  r_name :: string
  r_company :: "string option"
  r_email :: "string option"
  r_created_at :: string
  r_is_active :: "bool option"

record Client =
  c_id :: int
  c_name :: string
  c_company :: "string option"
  c_email :: "string option"
  c_created_at :: string

record ClientCreate =
  cc_name :: string
  cc_company :: "string option"
  cc_email :: "string option"

record interaction_row =
  i_id :: int
  i_client_id :: int
  i_date :: string
  i_raw_text :: string
  i_summary :: string
  i_deal_stage :: string
  i_objections :: "string option"
  i_interest_level :: string
  i_next_action :: string
  i_followup_date :: "string option"

record database =
  clients :: "client_row list"
  clients_seq :: int
  interactions :: "interaction_row list"

definition Client_of_row :: "client_row \<Rightarrow> Client" where
  "Client_of_row r =
     \<lparr>c_id = r_id r, c_name = r_name r, c_company = r_company r,
      c_email = r_email r, c_created_at = r_created_at r\<rparr>"

text \<open>The SQL condition \<^verbatim>\<open>is_active = 1 OR is_active IS NULL\<close>.\<close>

definition active :: "client_row \<Rightarrow> bool" where
  "active r \<longleftrightarrow> r_is_active r = Some True \<or> r_is_active r = None"

text \<open>
  \<^verbatim>\<open>get_client\<close>: \<^verbatim>\<open>SELECT * FROM clients WHERE id = ? AND (is_active = 1 OR
  is_active IS NULL)\<close>, then \<^verbatim>\<open>fetchone\<close>.
\<close>

definition get_client :: "database \<Rightarrow> int \<Rightarrow> Client option" where
  "get_client db client_id =
     map_option Client_of_row
       (find (\<lambda>r. r_id r = client_id \<and> active r) (clients db))"


text \<open>
  \<^verbatim>\<open>delete_client\<close> and \<^verbatim>\<open>restore_client\<close> return \<^verbatim>\<open>cursor.rowcount > 0\<close>
  and the updated store. The soft delete is \<^verbatim>\<open>UPDATE clients SET is_active = 0
  WHERE id = ?\<close>, the restore sets 1. The hard delete removes the row; the connection
  never switches foreign-key enforcement on, so no other table changes.
\<close>

definition set_active :: "bool \<Rightarrow> int \<Rightarrow> client_row \<Rightarrow> client_row" where
  "set_active v client_id r =
     (if r_id r = client_id then r\<lparr>r_is_active := Some v\<rparr> else r)"



section \<open>Lookup by id and the active flag\<close>



definition ex_row_active :: client_row where
  "ex_row_active =
     \<lparr>r_id = 1, r_name = ''Sarah Jones'', r_company = Some ''Acme'',
      r_email = Some ''sarah@acme.com'', r_created_at = ''2025-03-10 09:00:00'',
      r_is_active = Some True\<rparr>"

definition ex_row_deleted :: client_row where
  "ex_row_deleted =
     \<lparr>r_id = 2, r_name = ''Jon Smith'', r_company = None, r_email = None,
      r_created_at = ''2025-03-11 10:30:00'', r_is_active = Some False\<rparr>"

definition ex_db :: database where
  "ex_db = \<lparr>clients = [ex_row_active, ex_row_deleted], clients_seq = 2, interactions = []\<rparr>"



section \<open>Soft delete and restore\<close>

lemma set_active_id [simp]: "r_id (set_active v i r) = r_id r"
  by (simp add: set_active_def)

lemma set_active_twice [simp]:
  "set_active True i (set_active False i x) = set_active True i x"
  by (simp add: set_active_def)



section \<open>The sequence matcher (difflib.SequenceMatcher)\<close>

text \<open>
  \<^verbatim>\<open>_calculate_similarity\<close> calls \<^verbatim>\<open>SequenceMatcher(None, a, b).ratio()\<close>: no junk
  predicate, and the automatic junk heuristic left on. The model follows the library's
  \<^verbatim>\<open>__chain_b\<close>, \<^verbatim>\<open>find_longest_match\<close>, \<^verbatim>\<open>get_matching_blocks\<close> and
  \<^verbatim>\<open>ratio\<close>. Indices are natural numbers; Python's floats are exact rationals here.
\<close>

type_synonym match = "nat \<times> nat \<times> nat"

text \<open>
  \<^verbatim>\<open>__chain_b\<close>: \<open>b2j\<close> maps an element of \<open>b\<close> to the ascending list of its
  positions. With no junk predicate nothing is purged as junk; when \<open>b\<close> has 200
  elements or more, the elements that occur more than \<open>n div 100 + 1\<close> times are
  purged as popular.
\<close>

fun setdefault_append :: "nat \<times> 'a \<Rightarrow> ('a \<rightharpoonup> nat list) \<Rightarrow> ('a \<rightharpoonup> nat list)" where
  "setdefault_append (i, elt) b2j =
     b2j(elt \<mapsto> (case b2j elt of None \<Rightarrow> [] | Some indices \<Rightarrow> indices) @ [i])"

definition chain_b :: "'a list \<Rightarrow> ('a \<rightharpoonup> nat list)" where
  "chain_b b =
     (let b2j = fold setdefault_append (enumerate 0 b) Map.empty;
          n = length b
      in if n \<ge> 200
         then (let ntest = n div 100 + 1
               in (\<lambda>elt. case b2j elt of
                     None \<Rightarrow> None
                   | Some idxs \<Rightarrow> if length idxs > ntest then None else Some idxs))
         else b2j)"

text \<open>
  The inner loop of \<^verbatim>\<open>find_longest_match\<close> over the positions \<open>j\<close> of \<open>a[i]\<close> in
  \<open>b\<close>: \<^verbatim>\<open>continue\<close> below \<open>blo\<close>, \<^verbatim>\<open>break\<close> from \<open>bhi\<close> on. The lookup
  \<^verbatim>\<open>j2len.get(j-1, 0)\<close> finds nothing at \<open>j = 0\<close>, where the key would be \<open>-1\<close>.
\<close>

fun scan_row ::
  "nat \<Rightarrow> nat \<Rightarrow> nat \<Rightarrow> (nat \<rightharpoonup> nat) \<Rightarrow> nat list \<Rightarrow> match \<times> (nat \<rightharpoonup> nat) \<Rightarrow> match \<times> (nat \<rightharpoonup> nat)"
where
  "scan_row i blo bhi j2len [] st = st"
| "scan_row i blo bhi j2len (j # js) ((besti, bestj, bestsize), newj2len) =
     (if j < blo then scan_row i blo bhi j2len js ((besti, bestj, bestsize), newj2len)
      else if j \<ge> bhi then ((besti, bestj, bestsize), newj2len)
      else
        (let k = (if j = 0 then 0 else (case j2len (j - 1) of None \<Rightarrow> 0 | Some v \<Rightarrow> v)) + 1
         in scan_row i blo bhi j2len js
              (if k > bestsize then (i + 1 - k, j + 1 - k, k) else (besti, bestj, bestsize),
               newj2len(j \<mapsto> k))))"

definition longest_junk_free ::
  "'a list \<Rightarrow> ('a \<rightharpoonup> nat list) \<Rightarrow> nat \<Rightarrow> nat \<Rightarrow> nat \<Rightarrow> nat \<Rightarrow> match"
where
  "longest_junk_free a b2j alo ahi blo bhi =
     fst (fold
            (\<lambda>i (best, j2len).
               scan_row i blo bhi j2len
                 (case b2j (a ! i) of None \<Rightarrow> [] | Some js \<Rightarrow> js) (best, Map.empty))
            [alo..<ahi] ((alo, blo, 0), Map.empty))"

text \<open>The four \<^verbatim>\<open>while\<close> loops that extend the best match at either end.\<close>

function extend_back ::
  "'a list \<Rightarrow> 'a list \<Rightarrow> ('a \<Rightarrow> bool) \<Rightarrow> nat \<Rightarrow> nat \<Rightarrow> match \<Rightarrow> match"
where
  "extend_back a b want alo blo (besti, bestj, bestsize) =
     (if besti > alo \<and> bestj > blo \<and> want (b ! (bestj - 1)) \<and>
         a ! (besti - 1) = b ! (bestj - 1)
      then extend_back a b want alo blo (besti - 1, bestj - 1, bestsize + 1)
      else (besti, bestj, bestsize))"
  by pat_completeness auto
termination
  by (relation "measure (\<lambda>(a, b, want, alo, blo, besti, bestj, bestsize). besti)") auto

function extend_forward ::
  "'a list \<Rightarrow> 'a list \<Rightarrow> ('a \<Rightarrow> bool) \<Rightarrow> nat \<Rightarrow> nat \<Rightarrow> match \<Rightarrow> match"
where
  "extend_forward a b want ahi bhi (besti, bestj, bestsize) =
     (if besti + bestsize < ahi \<and> bestj + bestsize < bhi \<and>
         want (b ! (bestj + bestsize)) \<and> a ! (besti + bestsize) = b ! (bestj + bestsize)
      then extend_forward a b want ahi bhi (besti, bestj, bestsize + 1)
      else (besti, bestj, bestsize))"
  by pat_completeness auto
termination
  by (relation "measure (\<lambda>(a, b, want, ahi, bhi, besti, bestj, bestsize). ahi - (besti + bestsize))")
    auto

text \<open>\<open>isbjunk\<close> is membership in \<^verbatim>\<open>bjunk\<close>, the empty set when there is no junk predicate.\<close>

definition isbjunk :: "'a \<Rightarrow> bool" where
  "isbjunk x = False"

definition find_longest_match ::
  "'a list \<Rightarrow> 'a list \<Rightarrow> ('a \<rightharpoonup> nat list) \<Rightarrow> nat \<Rightarrow> nat \<Rightarrow> nat \<Rightarrow> nat \<Rightarrow> match"
where
  "find_longest_match a b b2j alo ahi blo bhi =
     (let best = longest_junk_free a b2j alo ahi blo bhi;
          best = extend_back a b (\<lambda>x. \<not> isbjunk x) alo blo best;
          best = extend_forward a b (\<lambda>x. \<not> isbjunk x) ahi bhi best;
          best = extend_back a b isbjunk alo blo best;
          best = extend_forward a b isbjunk ahi bhi best
      in best)"

declare extend_back.simps [simp del] extend_forward.simps [simp del]

text \<open>
  Bounds of \<^verbatim>\<open>find_longest_match\<close>: either it reports no match at
  \<open>(alo, blo, 0)\<close>, or a match of positive size inside both ranges. \<open>len_ok\<close>
  is the invariant of the table \<^verbatim>\<open>j2len\<close>, \<open>best_ok\<close> that of the best match.
\<close>

definition len_ok :: "nat \<Rightarrow> nat \<Rightarrow> nat \<Rightarrow> (nat \<rightharpoonup> nat) \<Rightarrow> bool" where
  "len_ok blo bhi n m \<longleftrightarrow>
     (\<forall>j v. m j = Some v \<longrightarrow> 1 \<le> v \<and> v \<le> n \<and> v \<le> j + 1 - blo \<and> blo \<le> j \<and> j < bhi)"

fun best_ok :: "nat \<Rightarrow> nat \<Rightarrow> nat \<Rightarrow> nat \<Rightarrow> match \<Rightarrow> bool" where
  "best_ok alo ahi blo bhi (i, j, k) \<longleftrightarrow>
     k = 0 \<and> i = alo \<and> j = blo \<or>
     0 < k \<and> alo \<le> i \<and> i + k \<le> ahi \<and> blo \<le> j \<and> j + k \<le> bhi"

lemma len_ok_empty [simp]: "len_ok blo bhi n Map.empty"
  by (simp add: len_ok_def)

lemma best_ok_mono: "best_ok alo ahi blo bhi m \<Longrightarrow> ahi \<le> ahi' \<Longrightarrow> best_ok alo ahi' blo bhi m"
  by (cases m) auto

lemma scan_row_ok:
  assumes "alo \<le> i" and "len_ok blo bhi (i - alo) j2len"
    and "len_ok blo bhi (Suc i - alo) new" and "best_ok alo (Suc i) blo bhi best"
    and "scan_row i blo bhi j2len js (best, new) = (best', new')"
  shows "best_ok alo (Suc i) blo bhi best' \<and> len_ok blo bhi (Suc i - alo) new'"
  using assms
proof (induction js arbitrary: best new)
  case Nil
  then show ?case by simp
next
  case (Cons j js)
  obtain bi bj bs where best: "best = (bi, bj, bs)" by (cases best)
  show ?case
  proof (cases "j < blo")
    case True
    have "scan_row i blo bhi j2len js (best, new) = (best', new')"
      using Cons.prems(5) True best by simp
    from Cons.IH [OF Cons.prems(1,2,3,4) this] show ?thesis .
  next
    case lo: False
    show ?thesis
    proof (cases "j \<ge> bhi")
      case True
      have "best' = best" and "new' = new"
        using Cons.prems(5) lo True best by simp_all
      with Cons.prems(3,4) show ?thesis by simp
    next
      case hi: False
      define k where "k = (if j = 0 then 0 else (case j2len (j - 1) of None \<Rightarrow> 0 | Some v \<Rightarrow> v)) + 1"
      have k1: "1 \<le> k" by (simp add: k_def)
      have k2: "k \<le> Suc i - alo \<and> k \<le> Suc j - blo"
      proof (cases "j = 0 \<or> j2len (j - 1) = None")
        case True
        then have "k = 1" by (auto simp: k_def)
        with Cons.prems(1) lo show ?thesis by auto
      next
        case False
        then obtain v where v: "j2len (j - 1) = Some v" and j: "j \<noteq> 0" by auto
        have "1 \<le> v \<and> v \<le> i - alo \<and> v \<le> (j - 1) + 1 - blo \<and> blo \<le> j - 1 \<and> j - 1 < bhi"
          using Cons.prems(2) v unfolding len_ok_def by blast
        then have "v \<le> i - alo" and "v \<le> j - 1 + 1 - blo" and "blo \<le> j - 1"
          by simp_all
        moreover have "k = Suc v" using v j by (simp add: k_def)
        ultimately show ?thesis using Cons.prems(1) j by auto
      qed
      let ?best = "if k > bs then (i + 1 - k, j + 1 - k, k) else (bi, bj, bs)"
      have b: "best_ok alo (Suc i) blo bhi ?best"
        using Cons.prems(1,4) k1 k2 lo hi best by auto
      have n: "len_ok blo bhi (Suc i - alo) (new(j \<mapsto> k))"
        using Cons.prems(3) k1 k2 lo hi by (auto simp: len_ok_def)
      have "scan_row i blo bhi j2len (j # js) ((bi, bj, bs), new) =
            scan_row i blo bhi j2len js (?best, new(j \<mapsto> k))"
        using lo hi by (simp only: scan_row.simps Let_def k_def if_False)
      with Cons.prems(5) best
      have "scan_row i blo bhi j2len js (?best, new(j \<mapsto> k)) = (best', new')"
        by simp
      from Cons.IH [OF Cons.prems(1,2) n b this] show ?thesis .
    qed
  qed
qed

lemma fold_rows_ok:
  assumes "alo \<le> n"
    and "fold (\<lambda>i (best, j2len).
               scan_row i blo bhi j2len
                 (case b2j (a ! i) of None \<Rightarrow> [] | Some js \<Rightarrow> js) (best, Map.empty))
            [alo..<n] ((alo, blo, 0), Map.empty) = (best, m)"
  shows "best_ok alo n blo bhi best \<and> len_ok blo bhi (n - alo) m"
  using assms
proof (induction n arbitrary: best m)
  case 0
  then show ?case by auto
next
  case (Suc n)
  show ?case
  proof (cases "alo \<le> n")
    case False
    with Suc.prems have "alo = Suc n" by simp
    with Suc.prems(2) show ?thesis by auto
  next
    case True
    let ?f = "\<lambda>i (best, j2len).
               scan_row i blo bhi j2len
                 (case b2j (a ! i) of None \<Rightarrow> [] | Some js \<Rightarrow> js) (best, Map.empty)"
    obtain best0 m0 where r0: "fold ?f [alo..<n] ((alo, blo, 0), Map.empty) = (best0, m0)"
      by (cases "fold ?f [alo..<n] ((alo, blo, 0), Map.empty)")
    from Suc.IH [OF True r0] have ok0: "best_ok alo n blo bhi best0" "len_ok blo bhi (n - alo) m0"
      by simp_all
    have step: "scan_row n blo bhi m0 (case b2j (a ! n) of None \<Rightarrow> [] | Some js \<Rightarrow> js)
                  (best0, Map.empty) = (best, m)"
      using Suc.prems(2) True r0 by simp
    have "best_ok alo (Suc n) blo bhi best0" using ok0(1) by (rule best_ok_mono) simp
    from scan_row_ok [OF True ok0(2) _ this step] show ?thesis by simp
  qed
qed

lemma longest_junk_free_ok: "best_ok alo ahi blo bhi (longest_junk_free a b2j alo ahi blo bhi)"
proof (cases "alo \<le> ahi")
  case True
  let ?f = "\<lambda>i (best, j2len).
               scan_row i blo bhi j2len
                 (case b2j (a ! i) of None \<Rightarrow> [] | Some js \<Rightarrow> js) (best, Map.empty)"
  obtain best m where r: "fold ?f [alo..<ahi] ((alo, blo, 0), Map.empty) = (best, m)"
    by (cases "fold ?f [alo..<ahi] ((alo, blo, 0), Map.empty)")
  from fold_rows_ok [OF True r] have "best_ok alo ahi blo bhi best" by simp
  with r show ?thesis by (simp add: longest_junk_free_def)
next
  case False
  then show ?thesis by (simp add: longest_junk_free_def)
qed

lemma extend_back_ok:
  "best_ok alo ahi blo bhi m \<Longrightarrow> best_ok alo ahi blo bhi (extend_back a b want alo blo m)"
proof (induction a b want alo blo m rule: extend_back.induct)
  case (1 a b want alo blo besti bestj bestsize)
  show ?case
  proof (cases "besti > alo \<and> bestj > blo \<and> want (b ! (bestj - 1)) \<and>
         a ! (besti - 1) = b ! (bestj - 1)")
    case True
    have eq: "extend_back a b want alo blo (besti, bestj, bestsize) =
              extend_back a b want alo blo (besti - 1, bestj - 1, bestsize + 1)"
      by (subst extend_back.simps) (simp only: True if_True simp_thms)
    from "1.prems" True have "best_ok alo ahi blo bhi (besti - 1, bestj - 1, bestsize + 1)"
      by auto
    from "1.IH" [OF True this] show ?thesis by (simp only: eq)
  next
    case False
    have "extend_back a b want alo blo (besti, bestj, bestsize) = (besti, bestj, bestsize)"
      by (subst extend_back.simps) (simp only: False if_False)
    with "1.prems" show ?thesis by simp
  qed
qed

lemma extend_forward_ok:
  "best_ok alo ahi blo bhi m \<Longrightarrow> best_ok alo ahi blo bhi (extend_forward a b want ahi bhi m)"
proof (induction a b want ahi bhi m rule: extend_forward.induct)
  case (1 a b want ahi bhi besti bestj bestsize)
  show ?case
  proof (cases "besti + bestsize < ahi \<and> bestj + bestsize < bhi \<and>
         want (b ! (bestj + bestsize)) \<and> a ! (besti + bestsize) = b ! (bestj + bestsize)")
    case True
    have eq: "extend_forward a b want ahi bhi (besti, bestj, bestsize) =
              extend_forward a b want ahi bhi (besti, bestj, bestsize + 1)"
      by (subst extend_forward.simps) (simp only: True if_True simp_thms)
    from "1.prems" True have "best_ok alo ahi blo bhi (besti, bestj, bestsize + 1)"
      by auto
    from "1.IH" [OF True this] show ?thesis by (simp only: eq)
  next
    case False
    have "extend_forward a b want ahi bhi (besti, bestj, bestsize) = (besti, bestj, bestsize)"
      by (subst extend_forward.simps) (simp only: False if_False)
    with "1.prems" show ?thesis by simp
  qed
qed

lemma find_longest_match_ok: "best_ok alo ahi blo bhi (find_longest_match a b b2j alo ahi blo bhi)"
  unfolding find_longest_match_def Let_def
  by (intro extend_forward_ok extend_back_ok longest_junk_free_ok)

lemma find_longest_match_bounds:
  assumes "find_longest_match a b b2j alo ahi blo bhi = (i, j, k)" and "k \<noteq> 0"
  shows "alo \<le> i \<and> i + k \<le> ahi \<and> blo \<le> j \<and> j + k \<le> bhi"
  using find_longest_match_ok [of alo ahi blo bhi a b b2j] assms by simp

text \<open>
  The loop of \<^verbatim>\<open>get_matching_blocks\<close> over the queue of ranges still to look at.
  The queue is held with its last element first: \<^verbatim>\<open>pop()\<close> takes the head, and the
  range appended last (the one after the match) stands before the one appended first.
\<close>

type_synonym block = "nat \<times> nat \<times> nat \<times> nat"

function blocks_loop ::
  "'a list \<Rightarrow> 'a list \<Rightarrow> ('a \<rightharpoonup> nat list) \<Rightarrow> block list \<Rightarrow> match list \<Rightarrow> match list"
where
  "blocks_loop a b b2j [] matching_blocks = matching_blocks"
| "blocks_loop a b b2j ((alo, ahi, blo, bhi) # queue) matching_blocks =
     (case find_longest_match a b b2j alo ahi blo bhi of
        (i, j, k) \<Rightarrow>
          if k \<noteq> 0
          then blocks_loop a b b2j
                 ((if i + k < ahi \<and> j + k < bhi then [(i + k, ahi, j + k, bhi)] else []) @
                  (if alo < i \<and> blo < j then [(alo, i, blo, j)] else []) @ queue)
                 (matching_blocks @ [(i, j, k)])
          else blocks_loop a b b2j queue matching_blocks)"
  by pat_completeness auto
termination
proof (relation "measure (\<lambda>(a, b, b2j, queue, blocks).
          sum_list (map (\<lambda>(alo, ahi, blo, bhi). 2 * (ahi - alo) + 1) queue))")
  show "wf (measure (\<lambda>(a, b, b2j, queue, blocks).
          sum_list (map (\<lambda>(alo, ahi, blo, bhi). 2 * (ahi - alo) + 1) queue)))"
    by simp
next
  fix a b :: "'a list" and b2j alo ahi blo bhi queue and matching_blocks :: "match list"
    and x i y j k
  assume "(i, y) = find_longest_match a b b2j alo ahi blo bhi" "(j, k) = y" "k \<noteq> 0"
  then have "find_longest_match a b b2j alo ahi blo bhi = (i, j, k)" by simp
  from find_longest_match_bounds [OF this \<open>k \<noteq> 0\<close>] \<open>k \<noteq> 0\<close>
  show "((a, b, b2j,
          (if i + k < ahi \<and> j + k < bhi then [(i + k, ahi, j + k, bhi)] else []) @
          (if alo < i \<and> blo < j then [(alo, i, blo, j)] else []) @ queue,
          matching_blocks @ [(i, j, k)]),
         a, b, b2j, (alo, ahi, blo, bhi) # queue, matching_blocks)
        \<in> measure (\<lambda>(a, b, b2j, queue, blocks).
          sum_list (map (\<lambda>(alo, ahi, blo, bhi). 2 * (ahi - alo) + 1) queue))"
    by auto
next
  fix a b :: "'a list" and b2j alo ahi blo bhi queue and matching_blocks :: "match list"
    and x i y j k
  show "((a, b, b2j, queue, matching_blocks), a, b, b2j, (alo, ahi, blo, bhi) # queue, matching_blocks)
        \<in> measure (\<lambda>(a, b, b2j, queue, blocks).
          sum_list (map (\<lambda>(alo, ahi, blo, bhi). 2 * (ahi - alo) + 1) queue))"
    by simp
qed

text \<open>
  The rest of \<^verbatim>\<open>get_matching_blocks\<close>: the blocks are sorted, adjacent blocks are
  collapsed, and the sentinel \<open>(la, lb, 0)\<close> is appended.
\<close>

fun collapse_step :: "match \<Rightarrow> match \<times> match list \<Rightarrow> match \<times> match list" where
  "collapse_step (i2, j2, k2) ((i1, j1, k1), non_adjacent) =
     (if i1 + k1 = i2 \<and> j1 + k1 = j2 then ((i1, j1, k1 + k2), non_adjacent)
      else ((i2, j2, k2), if k1 \<noteq> 0 then non_adjacent @ [(i1, j1, k1)] else non_adjacent))"

definition get_matching_blocks :: "'a list \<Rightarrow> 'a list \<Rightarrow> match list" where
  "get_matching_blocks a b =
     (let la = length a; lb = length b;
          matching_blocks = sort (blocks_loop a b (chain_b b) [(0, la, 0, lb)] [])
      in case fold collapse_step matching_blocks ((0, 0, 0), []) of
           ((i1, j1, k1), non_adjacent) \<Rightarrow>
             (if k1 \<noteq> 0 then non_adjacent @ [(i1, j1, k1)] else non_adjacent) @ [(la, lb, 0)])"

definition calculate_ratio :: "nat \<Rightarrow> nat \<Rightarrow> rat" where
  "calculate_ratio matches len = (if len \<noteq> 0 then 2 * of_nat matches / of_nat len else 1)"

definition ratio :: "'a list \<Rightarrow> 'a list \<Rightarrow> rat" where
  "ratio a b =
     calculate_ratio (sum_list (map (\<lambda>(i, j, k). k) (get_matching_blocks a b)))
       (length a + length b)"

text \<open>
  \<^verbatim>\<open>Database._calculate_similarity\<close>: 0 when either string is \<^verbatim>\<open>None\<close> or empty,
  else the ratio of the lower-cased strings times 100.
\<close>

definition calculate_similarity :: "string option \<Rightarrow> string option \<Rightarrow> rat" where
  "calculate_similarity str1 str2 =
     (if \<not> truthy str1 \<or> \<not> truthy str2 then 0
      else ratio (lower (the str1)) (lower (the str2)) * 100)"

text \<open>
  The sizes of the matching blocks add up to at most the length of either sequence:
  every block lies in a range of the queue, and the ranges left and right of a block
  are disjoint from it.
\<close>

definition total_size :: "match list \<Rightarrow> nat" where
  "total_size ms = sum_list (map (\<lambda>(i, j, k). k) ms)"

lemma total_size_simps [simp]:
  "total_size [] = 0" "total_size ((i, j, k) # ms) = k + total_size ms"
  "total_size (ms @ ms') = total_size ms + total_size ms'"
  by (simp_all add: total_size_def)

































section \<open>The similarity scorer\<close>




section \<open>Duplicate detection and client creation (database.py)\<close>

text \<open>Python's \<^verbatim>\<open>str\<close> of a non-negative integer, for the f-strings.\<close>

definition digit_char :: "nat \<Rightarrow> char" where
  "digit_char d = ''0123456789'' ! d"

function str_nat :: "nat \<Rightarrow> string" where
  "str_nat n = (if n < 10 then [digit_char n] else str_nat (n div 10) @ [digit_char (n mod 10)])"
  by pat_completeness auto
termination
  by (relation "measure id") auto

declare str_nat.simps [simp del]

text \<open>
  One entry of the list \<^verbatim>\<open>find_potential_duplicates\<close> returns: the dictionary
  \<^verbatim>\<open>scores\<close>. The key \<^verbatim>\<open>email_similarity\<close> exists only when both emails are
  given and differ.
\<close>

record scores =
  s_id :: int
  s_name :: string
  s_company :: "string option"
  s_email :: "string option"
  name_similarity :: rat
  email_match :: bool
  company_similarity :: rat
  total_score :: rat
  email_similarity :: "rat option"

definition DUPLICATE_SIMILARITY_THRESHOLD :: rat where
  "DUPLICATE_SIMILARITY_THRESHOLD = 85"

text \<open>The body of the loop over the rows, up to the threshold test.\<close>

definition score_row :: "string \<Rightarrow> string option \<Rightarrow> string option \<Rightarrow> client_row \<Rightarrow> scores" where
  "score_row name email company row =
     (let scores =
            \<lparr>s_id = r_id row, s_name = r_name row, s_company = r_company row,
             s_email = r_email row, name_similarity = 0, email_match = False,
             company_similarity = 0, total_score = 0, email_similarity = None\<rparr>;
          scores = scores\<lparr>name_similarity := calculate_similarity (Some name) (Some (r_name row))\<rparr>;
          scores =
            (if truthy email \<and> truthy (r_email row) \<and> lower (the email) = lower (the (r_email row))
             then scores\<lparr>email_match := True, total_score := 100\<rparr>
             else if truthy email \<and> truthy (r_email row)
             then scores\<lparr>email_similarity := Some (calculate_similarity email (r_email row))\<rparr>
             else scores);
          scores =
            (if truthy company \<and> truthy (r_company row)
             then scores\<lparr>company_similarity := calculate_similarity company (r_company row)\<rparr>
             else scores);
          scores =
            (if \<not> email_match scores
             then scores\<lparr>total_score :=
                    name_similarity scores * (7 / 10) + company_similarity scores * (3 / 10)\<rparr>
             else scores)
      in scores)"

text \<open>
  The loop: a row whose \<^verbatim>\<open>is_active\<close> is 0 is skipped (NULL counts as 1), and the
  scores are appended when they reach the threshold or the email matches.
\<close>

fun collect_duplicates ::
  "string \<Rightarrow> string option \<Rightarrow> string option \<Rightarrow> client_row list \<Rightarrow> scores list"
where
  "collect_duplicates name email company [] = []"
| "collect_duplicates name email company (row # rows) =
     (let is_active = (case r_is_active row of None \<Rightarrow> True | Some v \<Rightarrow> v)
      in if \<not> is_active then collect_duplicates name email company rows
         else
           (let scores = score_row name email company row
            in if total_score scores \<ge> DUPLICATE_SIMILARITY_THRESHOLD \<or> email_match scores
               then scores # collect_duplicates name email company rows
               else collect_duplicates name email company rows))"

text \<open>
  \<^verbatim>\<open>find_potential_duplicates\<close>: the rows are those of the \<^verbatim>\<open>SELECT\<close> with the
  condition on \<^verbatim>\<open>is_active\<close>; the result is \<^verbatim>\<open>sorted(duplicates, key=total_score,
  reverse=True)\<close>, a stable sort.
\<close>

definition find_potential_duplicates ::
  "database \<Rightarrow> string \<Rightarrow> string option \<Rightarrow> string option \<Rightarrow> scores list"
where
  "find_potential_duplicates db name email company =
     sort_key (\<lambda>x. - total_score x)
       (collect_duplicates name email company (filter active (clients db)))"

text \<open>
  \<^verbatim>\<open>create_client\<close>. The new id is the one \<^verbatim>\<open>AUTOINCREMENT\<close> gives: one more
  than the largest id the table has ever held. \<open>now\<close> is \<^verbatim>\<open>CURRENT_TIMESTAMP\<close>. The
  created client is read back with \<^verbatim>\<open>SELECT * FROM clients WHERE id = ?\<close>.
\<close>

datatype store_error =
  DuplicateClientError string "scores list"
| DatabaseError string

definition next_client_id :: "database \<Rightarrow> int" where
  "next_client_id db = fold max (map r_id (clients db)) (clients_seq db) + 1"

definition create_client ::
  "database \<Rightarrow> ClientCreate \<Rightarrow> bool \<Rightarrow> string \<Rightarrow> (store_error + Client) \<times> database"
where
  "create_client db client force now =
     (let duplicates =
            (if \<not> force
             then find_potential_duplicates db (cc_name client) (cc_email client) (cc_company client)
             else [])
      in if \<not> force \<and> duplicates \<noteq> []
         then (Inl (DuplicateClientError
                      (''Found '' @ str_nat (length duplicates) @ '' potential duplicate(s)'')
                      duplicates), db)
         else
           (let client_id = next_client_id db;
                db' = db\<lparr>clients := clients db @
                              [\<lparr>r_id = client_id, r_name = cc_name client,
                                r_company = cc_company client, r_email = cc_email client,
                                r_created_at = now, r_is_active = Some True\<rparr>],
                           clients_seq := client_id\<rparr>
            in case find (\<lambda>r. r_id r = client_id) (clients db') of
                 Some row \<Rightarrow> (Inr (Client_of_row row), db')
               | None \<Rightarrow> (Inl (DatabaseError ''Database error''), db)))"








text \<open>
  C8: without \<open>force\<close>, \<open>create_client\<close> fails with the duplicate error that carries
  the list of \<open>find_potential_duplicates\<close>, and leaves the store as it was, exactly when
  that list is not empty. Otherwise, and always with \<open>force\<close>, it appends one row with
  the candidate's fields, the active flag set and a fresh id, and returns that row as a
  client.
\<close>

lemma fold_max_ge: "fold max xs (m :: int) \<ge> m \<and> (\<forall>x \<in> set xs. x \<le> fold max xs m)"
proof (induction xs arbitrary: m)
  case Nil
  then show ?case by simp
next
  case (Cons x xs)
  from Cons.IH [of "max x m"] show ?case by auto
qed

lemma find_snoc:
  "find P (xs @ [y]) = (case find P xs of Some x \<Rightarrow> Some x | None \<Rightarrow> if P y then Some y else None)"
  by (induction xs) simp_all

lemma next_client_id_fresh: "\<forall>r \<in> set (clients db). r_id r < next_client_id db"
  using fold_max_ge [of "clients_seq db" "map r_id (clients db)"]
  by (auto simp: next_client_id_def)

theorem create_client_spec:
  "(\<not> force \<and> find_potential_duplicates db (cc_name c) (cc_email c) (cc_company c) \<noteq> [] \<longrightarrow>
      (\<exists>msg. fst (create_client db c force now) =
          Inl (DuplicateClientError msg
                 (find_potential_duplicates db (cc_name c) (cc_email c) (cc_company c)))) \<and>
      snd (create_client db c force now) = db) \<and>
   (force \<or> find_potential_duplicates db (cc_name c) (cc_email c) (cc_company c) = [] \<longrightarrow>
      (\<exists>row. r_id row \<notin> r_id ` set (clients db) \<and>
         r_name row = cc_name c \<and> r_company row = cc_company c \<and>
         r_email row = cc_email c \<and> r_created_at row = now \<and> r_is_active row = Some True \<and>
         clients (snd (create_client db c force now)) = clients db @ [row] \<and>
         interactions (snd (create_client db c force now)) = interactions db \<and>
         fst (create_client db c force now) = Inr (Client_of_row row) \<and>
         get_client (snd (create_client db c force now)) (r_id row) = Some (Client_of_row row)))"
proof -
  let ?row = "\<lparr>r_id = next_client_id db, r_name = cc_name c, r_company = cc_company c,
               r_email = cc_email c, r_created_at = now, r_is_active = Some True\<rparr>"
  have fresh: "\<forall>r \<in> set (clients db). r_id r \<noteq> next_client_id db"
    using next_client_id_fresh [of db] by auto
  then have n1: "find (\<lambda>r. r_id r = next_client_id db) (clients db) = None"
    and n2: "find (\<lambda>r. r_id r = next_client_id db \<and> active r) (clients db) = None"
    unfolding find_None_iff by blast+
  have f1: "find (\<lambda>r. r_id r = next_client_id db) (clients db @ [?row]) = Some ?row"
    unfolding find_snoc n1 by simp
  have f2: "find (\<lambda>r. r_id r = next_client_id db \<and> active r) (clients db @ [?row]) = Some ?row"
    unfolding find_snoc n2 by (simp add: active_def)
  have nm: "next_client_id db \<notin> r_id ` set (clients db)" using fresh by auto
  show ?thesis
    using f1 f2 nm
    by (auto simp: create_client_def Let_def get_client_def intro!: exI [of _ ?row])
qed

theorem create_client_spec_witness:
  "fst (create_client ex_db \<lparr>cc_name = ''Raj Patel'', cc_company = None, cc_email = None\<rparr> True
          ''2025-03-12 08:15:00'') =
     Inr \<lparr>c_id = 3, c_name = ''Raj Patel'', c_company = None, c_email = None,
          c_created_at = ''2025-03-12 08:15:00''\<rparr> \<and>
   snd (create_client ex_db
          \<lparr>cc_name = ''Sarah Jones'', cc_company = None, cc_email = Some ''SARAH@ACME.COM''\<rparr>
          False ''2025-03-12 08:15:00'') = ex_db"
proof
  let ?c = "\<lparr>cc_name = ''Raj Patel'', cc_company = None, cc_email = None\<rparr>"
  from create_client_spec [of True ex_db ?c "''2025-03-12 08:15:00''"]
  obtain row where "r_id row \<notin> r_id ` set (clients ex_db)"
    and "clients (snd (create_client ex_db ?c True ''2025-03-12 08:15:00'')) = clients ex_db @ [row]"
    and "fst (create_client ex_db ?c True ''2025-03-12 08:15:00'') = Inr (Client_of_row row)"
    by auto
  moreover have "clients (snd (create_client ex_db ?c True ''2025-03-12 08:15:00'')) =
      clients ex_db @ [\<lparr>r_id = 3, r_name = ''Raj Patel'', r_company = None, r_email = None,
                       r_created_at = ''2025-03-12 08:15:00'', r_is_active = Some True\<rparr>]"
    by (simp add: create_client_def next_client_id_def ex_db_def ex_row_active_def
        ex_row_deleted_def Let_def)
  ultimately show "fst (create_client ex_db ?c True ''2025-03-12 08:15:00'') =
     Inr \<lparr>c_id = 3, c_name = ''Raj Patel'', c_company = None, c_email = None,
          c_created_at = ''2025-03-12 08:15:00''\<rparr>"
    by (auto simp: Client_of_row_def)
next
  let ?d = "\<lparr>cc_name = ''Sarah Jones'', cc_company = None, cc_email = Some ''SARAH@ACME.COM''\<rparr>"
  have "find_potential_duplicates ex_db ''Sarah Jones'' (Some ''SARAH@ACME.COM'') None \<noteq> []"
    by code_simp
  with create_client_spec [of False ex_db ?d "''2025-03-12 08:15:00''"]
  show "snd (create_client ex_db ?d False ''2025-03-12 08:15:00'') = ex_db"
    by simp
qed

section \<open>Client context for the prompts (memory.py, models.py)\<close>















section \<open>Cleaning the model output (ai_crm.py)\<close>

text \<open>
  \<open>find_sub sep s\<close> is \<^verbatim>\<open>s.find(sep)\<close>, the place of the first occurrence;
  \<^verbatim>\<open>sep in s\<close> holds when there is one. \<open>split sep s\<close> is \<^verbatim>\<open>s.split(sep)\<close> for a
  separator that is not empty (Python raises \<^verbatim>\<open>ValueError\<close> on an empty one; the
  code only splits on its two fences).
\<close>

definition startswith :: "string \<Rightarrow> string \<Rightarrow> bool" where
  "startswith s prefix \<longleftrightarrow> take (length prefix) s = prefix"

fun find_sub :: "string \<Rightarrow> string \<Rightarrow> nat option" where
  "find_sub sep [] = (if sep = [] then Some 0 else None)"
| "find_sub sep (c # cs) =
     (if startswith (c # cs) sep then Some 0 else map_option Suc (find_sub sep cs))"

lemma find_sub_bound: "find_sub sep s = Some n \<Longrightarrow> n + length sep \<le> length s"
proof (induction s arbitrary: n)
  case Nil
  then show ?case by (simp split: if_splits)
next
  case (Cons c cs)
  show ?case
  proof (cases "startswith (c # cs) sep")
    case True
    then have "length (take (length sep) (c # cs)) = length sep"
      unfolding startswith_def by simp
    then have "length sep \<le> length (c # cs)"
      unfolding length_take by linarith
    with Cons.prems True show ?thesis by simp
  next
    case False
    with Cons.prems obtain m where "find_sub sep cs = Some m" and "n = Suc m" by auto
    with Cons.IH show ?thesis by simp
  qed
qed

function split :: "string \<Rightarrow> string \<Rightarrow> string list" where
  "split sep s =
     (if sep = [] then [s]
      else case find_sub sep s of
             None \<Rightarrow> [s]
           | Some n \<Rightarrow> take n s # split sep (drop (n + length sep) s))"
  by pat_completeness auto
termination
proof (relation "measure (\<lambda>(sep, s). length s)")
  show "wf (measure (\<lambda>(sep, s). length s))" by simp
next
  fix sep s :: string and n
  assume "sep \<noteq> []" and "find_sub sep s = Some n"
  from find_sub_bound [OF this(2)] this(1)
  show "((sep, drop (n + length sep) s), sep, s) \<in> measure (\<lambda>(sep, s). length s)"
    by (cases sep) auto
qed

declare split.simps [simp del]

text \<open>
  \<^verbatim>\<open>re.search(r'\{.*\}', raw, re.DOTALL)\<close>: the leftmost match starts at the first
  opening brace that has a closing brace after it, which can only be the first opening
  brace; the greedy \<^verbatim>\<open>.*\<close> runs to the last closing brace.
\<close>

definition re_search_braces :: "string \<Rightarrow> string option" where
  "re_search_braces s =
     (case dropWhile (\<lambda>c. c \<noteq> CHR ''{'') s of
        [] \<Rightarrow> None
      | c # rest \<Rightarrow>
          if CHR ''}'' \<in> set rest
          then Some (c # rev (dropWhile (\<lambda>c. c \<noteq> CHR ''}'') (rev rest)))
          else None)"

definition json_fence :: string where
  "json_fence = ''```json''"

definition fence :: string where
  "fence = ''```''"

text \<open>The second half of \<^verbatim>\<open>_clean_json_response\<close>: the brace match, else the stripped text.\<close>

definition find_json_object :: "string \<Rightarrow> string" where
  "find_json_object raw = (case re_search_braces raw of Some m \<Rightarrow> m | None \<Rightarrow> strip raw)"

definition clean_json_response :: "string \<Rightarrow> string" where
  "clean_json_response raw =
     (let raw =
            (if find_sub json_fence raw \<noteq> None
             then split fence (split json_fence raw ! 1) ! 0
             else if find_sub fence raw \<noteq> None
             then split fence (split fence raw ! 1) ! 0
             else raw)
      in find_json_object raw)"

text \<open>
  \<open>before_first sep s\<close> is the text of \<open>s\<close> before the first occurrence of
  \<open>sep\<close>, all of \<open>s\<close> when there is none.
\<close>

definition before_first :: "string \<Rightarrow> string \<Rightarrow> string" where
  "before_first sep s = (case find_sub sep s of None \<Rightarrow> s | Some n \<Rightarrow> take n s)"

lemma find_sub_first:
  "find_sub sep s = Some n \<Longrightarrow>
   startswith (drop n s) sep \<and> (\<forall>k < n. \<not> startswith (drop k s) sep)"
proof (induction s arbitrary: n)
  case Nil
  then show ?case by (simp add: startswith_def split: if_splits)
next
  case (Cons c cs)
  show ?case
  proof (cases "startswith (c # cs) sep")
    case True
    with Cons.prems show ?thesis by simp
  next
    case False
    with Cons.prems obtain m where m: "find_sub sep cs = Some m" "n = Suc m" by auto
    from Cons.IH [OF m(1)] False m(2) show ?thesis
      by (auto simp: less_Suc_eq_0_disj)
  qed
qed

lemma find_sub_none:
  "find_sub sep s = None \<Longrightarrow> \<forall>k \<le> length s. \<not> startswith (drop k s) sep"
proof (induction s)
  case Nil
  then show ?case by (simp add: startswith_def split: if_splits)
next
  case (Cons c cs)
  then have "\<not> startswith (c # cs) sep" and "find_sub sep cs = None"
    by (auto split: if_splits)
  with Cons.IH have ih: "\<forall>k \<le> length cs. \<not> startswith (drop k cs) sep" by simp
  show ?case
  proof (intro allI impI)
    fix k
    assume "k \<le> length (c # cs)"
    then show "\<not> startswith (drop k (c # cs)) sep"
      using ih \<open>\<not> startswith (c # cs) sep\<close> by (cases k) simp_all
  qed
qed

lemma split_no_sep: "find_sub sep s = None \<Longrightarrow> split sep s = [s]"
  by (subst split.simps) simp

lemma split_first:
  "sep \<noteq> [] \<Longrightarrow> find_sub sep s = Some n \<Longrightarrow>
   split sep s = take n s # split sep (drop (n + length sep) s)"
  by (subst split.simps) simp

lemma hd_split: "sep \<noteq> [] \<Longrightarrow> split sep s ! 0 = before_first sep s"
  by (subst split.simps) (simp add: before_first_def split: option.splits)

lemma split_second:
  "sep \<noteq> [] \<Longrightarrow> find_sub sep s = Some n \<Longrightarrow>
   split sep s ! 1 = before_first sep (drop (n + length sep) s)"
  using hd_split [of sep "drop (n + length sep) s"] by (simp add: split_first)

lemma startswith_take:
  "startswith (c # take m cs) sep \<Longrightarrow> startswith (c # cs) sep"
proof -
  assume a: "startswith (c # take m cs) sep"
  then have "take (length sep) (take (Suc m) (c # cs)) = sep"
    by (simp add: startswith_def)
  then have "take (min (length sep) (Suc m)) (c # cs) = sep" by (simp only: take_take)
  moreover from this have "length sep \<le> min (length sep) (Suc m)"
    by (metis length_take min.cobounded1 min.absorb_iff1 min.commute min.cobounded2 min_def)
  ultimately show ?thesis
    unfolding startswith_def by (simp add: min_def split: if_splits)
qed

lemma find_sub_take:
  "sep \<noteq> [] \<Longrightarrow> find_sub sep s = Some m \<Longrightarrow> find_sub sep (take m s) = None"
proof (induction s arbitrary: m)
  case Nil
  then show ?case by simp
next
  case (Cons c cs)
  show ?case
  proof (cases "startswith (c # cs) sep")
    case True
    with Cons.prems show ?thesis by simp
  next
    case False
    with Cons.prems obtain m' where m: "find_sub sep cs = Some m'" "m = Suc m'" by auto
    from False have "\<not> startswith (c # take m' cs) sep" using startswith_take by blast
    with Cons.IH [OF Cons.prems(1) m(1)] m(2) show ?thesis by simp
  qed
qed

lemma before_first_idem: "sep \<noteq> [] \<Longrightarrow> before_first sep (before_first sep s) = before_first sep s"
  by (cases "find_sub sep s") (simp_all add: before_first_def find_sub_take)

lemma fence_nonempty [simp]: "fence \<noteq> []" "json_fence \<noteq> []"
  "length fence = 3" "length json_fence = 7"
  by (simp_all add: fence_def json_fence_def)

lemma json_fence_is_fence: "startswith s json_fence \<Longrightarrow> startswith s fence"
proof -
  assume "startswith s json_fence"
  then have "take 7 s = json_fence" by (simp add: startswith_def)
  then have "take 3 (take 7 s) = take 3 json_fence" by simp
  then show ?thesis by (simp add: startswith_def fence_def json_fence_def numeral_3_eq_3)
qed

lemma no_fence_no_json_fence:
  assumes "find_sub fence raw = None"
  shows "find_sub json_fence raw = None"
proof (cases "find_sub json_fence raw")
  case None
  then show ?thesis .
next
  case (Some n)
  from find_sub_first [OF Some] have "startswith (drop n raw) fence"
    by (simp add: json_fence_is_fence)
  moreover from find_sub_bound [OF Some] have "n \<le> length raw" by simp
  ultimately show ?thesis using find_sub_none [OF assms] by blast
qed

lemma re_search_braces_object:
  assumes "CHR ''{'' \<notin> set a" and "CHR ''}'' \<notin> set z"
  shows "re_search_braces (a @ ''{'' @ mid @ ''}'' @ z) = Some (''{'' @ mid @ ''}'')"
proof -
  have d: "dropWhile (\<lambda>c. c \<noteq> CHR ''{'') (a @ ''{'' @ mid @ ''}'' @ z) = ''{'' @ mid @ ''}'' @ z"
    using assms(1) by (auto simp: dropWhile_append3)
  have "dropWhile (\<lambda>c. c \<noteq> CHR ''}'') (rev z @ CHR ''}'' # rev mid) = CHR ''}'' # rev mid"
    using assms(2) by (auto simp: dropWhile_append3)
  then have "rev (dropWhile (\<lambda>c. c \<noteq> CHR ''}'') (rev (mid @ ''}'' @ z))) = mid @ ''}''"
    by simp
  then show ?thesis unfolding re_search_braces_def d by simp
qed

lemma re_search_braces_none:
  assumes "\<not> (\<exists>a mid z. t = a @ ''{'' @ mid @ ''}'' @ z)"
  shows "re_search_braces t = None"
proof (cases "dropWhile (\<lambda>c. c \<noteq> CHR ''{'') t")
  case Nil
  show ?thesis unfolding re_search_braces_def Nil by simp
next
  case (Cons c rest)
  have "dropWhile (\<lambda>c. c \<noteq> CHR ''{'') t \<noteq> []" using Cons by simp
  from hd_dropWhile [OF this] have c: "c = CHR ''{''" unfolding Cons by simp
  have t: "t = takeWhile (\<lambda>c. c \<noteq> CHR ''{'') t @ ''{'' @ rest"
    using Cons c by (metis append_Cons append_Nil takeWhile_dropWhile_id)
  have "CHR ''}'' \<notin> set rest"
  proof
    assume "CHR ''}'' \<in> set rest"
    then obtain mid z where "rest = mid @ ''}'' @ z" by (auto dest: split_list)
    with t assms show False by blast
  qed
  then show ?thesis unfolding re_search_braces_def Cons by simp
qed

text \<open>
  C4: when the raw text has a fence tagged \<open>json\<close>, the cleaning step keeps what
  follows the first such fence up to the next fence, whether or not untagged fences
  stand before it; with untagged fences only, it keeps what follows the first fence up
  to the next one; with no fence it keeps the text. From what it kept it returns the
  text from the first opening brace to the last closing brace, whatever commentary
  stands before and after, and the stripped text when there is no such pair of braces.
\<close>

theorem clean_json_response_spec:
  "(\<forall>n. find_sub json_fence raw = Some n \<longrightarrow>
      clean_json_response raw =
        find_json_object (before_first fence (before_first json_fence (drop (n + 7) raw)))) \<and>
   (find_sub json_fence raw = None \<longrightarrow>
      (\<forall>n. find_sub fence raw = Some n \<longrightarrow>
         clean_json_response raw = find_json_object (before_first fence (drop (n + 3) raw)))) \<and>
   (find_sub fence raw = None \<longrightarrow> clean_json_response raw = find_json_object raw) \<and>
   (\<forall>a mid z. CHR ''{'' \<notin> set a \<and> CHR ''}'' \<notin> set z \<longrightarrow>
      find_json_object (a @ ''{'' @ mid @ ''}'' @ z) = ''{'' @ mid @ ''}'') \<and>
   (\<forall>t. \<not> (\<exists>a mid z. t = a @ ''{'' @ mid @ ''}'' @ z) \<longrightarrow> find_json_object t = strip t)"
proof (intro conjI allI impI)
  fix n
  assume "find_sub json_fence raw = Some n"
  then show "clean_json_response raw =
        find_json_object (before_first fence (before_first json_fence (drop (n + 7) raw)))"
    using split_second [of json_fence raw n]
    by (simp add: clean_json_response_def hd_split)
next
  fix n
  assume "find_sub json_fence raw = None" and "find_sub fence raw = Some n"
  then show "clean_json_response raw = find_json_object (before_first fence (drop (n + 3) raw))"
    using split_second [of fence raw n]
    by (simp add: clean_json_response_def hd_split before_first_idem)
next
  assume "find_sub fence raw = None"
  then show "clean_json_response raw = find_json_object raw"
    by (simp add: clean_json_response_def no_fence_no_json_fence)
next
  fix a mid z
  assume "CHR ''{'' \<notin> set a \<and> CHR ''}'' \<notin> set z"
  then show "find_json_object (a @ ''{'' @ mid @ ''}'' @ z) = ''{'' @ mid @ ''}''"
    by (simp add: find_json_object_def re_search_braces_object del: append_Cons append_Nil)
next
  fix t
  assume "\<not> (\<exists>a mid z. t = a @ ''{'' @ mid @ ''}'' @ z)"
  then show "find_json_object t = strip t"
    by (simp add: find_json_object_def re_search_braces_none del: append_Cons append_Nil)
qed

definition ex_json_text :: string where
  \<open>ex_json_text = ''{"summary":"Discussed pricing options in detail","deal_stage":"proposal","objections":"none","interest_level":"warm","next_action":"Send proposal Friday","followup_date":"2025-03-10"}''\<close>

definition ex_raw_output :: string where
  "ex_raw_output = ''Here is the data:\<newline>```json\<newline>'' @ ex_json_text @ ''\<newline>```''"

theorem clean_json_response_spec_witness:
  "clean_json_response ex_raw_output = ex_json_text \<and>
   clean_json_response ''Sure! {} is the object. Anything else?'' = ''{}'' \<and>
   clean_json_response ''  no object here  '' = ''no object here''"
proof (intro conjI)
  have "find_sub json_fence ex_raw_output = Some 18" by code_simp
  with clean_json_response_spec [of ex_raw_output]
  have "clean_json_response ex_raw_output =
        find_json_object (before_first fence (before_first json_fence (drop (18 + 7) ex_raw_output)))"
    by blast
  also have "\<dots> = ex_json_text" by code_simp
  finally show "clean_json_response ex_raw_output = ex_json_text" .
next
  let ?raw = "''Sure! {} is the object. Anything else?''"
  have "find_sub fence ?raw = None" by code_simp
  with clean_json_response_spec [of ?raw]
  have "clean_json_response ?raw = find_json_object ?raw" by blast
  also have "\<dots> = ''{}''" by code_simp
  finally show "clean_json_response ?raw = ''{}''" .
next
  let ?raw = "''  no object here  ''"
  have "find_sub fence ?raw = None" by code_simp
  with clean_json_response_spec [of ?raw]
  have "clean_json_response ?raw = find_json_object ?raw" by blast
  also have "\<dots> = ''no object here''" by code_simp
  finally show "clean_json_response ?raw = ''no object here''" .
qed

section \<open>The structured-output validator (models.py)\<close>

text \<open>
  The value \<^verbatim>\<open>json.loads\<close> returns. An object is the list of its members with
  distinct keys, looked up by key. A number is kept as the text that Python's
  \<^verbatim>\<open>str\<close> gives for it, which is all the schema below reads of a number. The
  decoder itself belongs to the Python library and is a parameter \<open>json_loads\<close> of the
  validator: \<open>Inl\<close> carries the message of its \<^verbatim>\<open>JSONDecodeError\<close>.
\<close>

datatype json =
  JNull
| JBool bool
| JNumber string
| JString string
| JArray "json list"
| JObject "(string \<times> json) list"

datatype DealStage =
  PROSPECTING | QUALIFICATION | PROPOSAL | NEGOTIATION | CLOSED_WON | CLOSED_LOST | NURTURE

datatype InterestLevel = HOT | WARM | COLD | NEUTRAL

definition DealStage_members :: "(string \<times> DealStage) list" where
  "DealStage_members =
     [(''prospecting'', PROSPECTING), (''qualification'', QUALIFICATION),
      (''proposal'', PROPOSAL), (''negotiation'', NEGOTIATION),
      (''closed_won'', CLOSED_WON), (''closed_lost'', CLOSED_LOST), (''nurture'', NURTURE)]"

definition InterestLevel_members :: "(string \<times> InterestLevel) list" where
  "InterestLevel_members =
     [(''hot'', HOT), (''warm'', WARM), (''cold'', COLD), (''neutral'', NEUTRAL)]"

record CRMData =
  summary :: string
  deal_stage :: DealStage
  objections :: "string option"
  interest_level :: InterestLevel
  next_action :: string
  followup_date :: "string option"

text \<open>
  \<^verbatim>\<open>datetime.strptime(v, "%Y-%m-%d")\<close>, on ASCII text. The library matches the
  regular expression \<^verbatim>\<open>(\d\d\d\d)-(1[0-2]|0[1-9]|[1-9])-(3[0-1]|[1-2]\d|0[1-9]|[1-9]| [1-9])\<close>
  at the start of the text, refuses text left over after the match, and then builds the
  date, which refuses a year 0 and a day the month does not have.
\<close>

definition is_digit :: "char \<Rightarrow> bool" where
  "is_digit c \<longleftrightarrow> c \<in> set ''0123456789''"

definition digit_value :: "char \<Rightarrow> nat" where
  "digit_value c = (case map_of (zip ''0123456789'' [0..<10]) c of Some d \<Rightarrow> d | None \<Rightarrow> 0)"

fun match_month :: "string \<Rightarrow> (nat \<times> string) option" where
  "match_month (c1 # c2 # c3 # rest) =
     (if (c1 = CHR ''1'' \<and> c2 \<in> set ''012'' \<or> c1 = CHR ''0'' \<and> c2 \<in> set ''123456789'') \<and>
         c3 = CHR ''-''
      then Some (10 * digit_value c1 + digit_value c2, rest)
      else if c1 \<in> set ''123456789'' \<and> c2 = CHR ''-'' then Some (digit_value c1, c3 # rest)
      else None)"
| "match_month [c1, c2] =
     (if c1 \<in> set ''123456789'' \<and> c2 = CHR ''-'' then Some (digit_value c1, []) else None)"
| "match_month s = None"

fun match_day :: "string \<Rightarrow> (nat \<times> string) option" where
  "match_day (c1 # c2 # rest) =
     (if c1 = CHR ''3'' \<and> c2 \<in> set ''01'' then Some (30 + digit_value c2, rest)
      else if c1 \<in> set ''12'' \<and> is_digit c2 then Some (10 * digit_value c1 + digit_value c2, rest)
      else if c1 = CHR ''0'' \<and> c2 \<in> set ''123456789'' then Some (digit_value c2, rest)
      else if c1 \<in> set ''123456789'' then Some (digit_value c1, c2 # rest)
      else if c1 = CHR '' '' \<and> c2 \<in> set ''123456789'' then Some (digit_value c2, rest)
      else None)"
| "match_day [c1] = (if c1 \<in> set ''123456789'' then Some (digit_value c1, []) else None)"
| "match_day [] = None"

definition is_leap :: "nat \<Rightarrow> bool" where
  "is_leap y \<longleftrightarrow> y mod 4 = 0 \<and> (y mod 100 \<noteq> 0 \<or> y mod 400 = 0)"

definition days_in_month :: "nat \<Rightarrow> nat \<Rightarrow> nat" where
  "days_in_month y m =
     (if m = 2 then (if is_leap y then 29 else 28)
      else if m \<in> set [4, 6, 9, 11] then 30 else 31)"

definition valid_date :: "nat \<Rightarrow> nat \<Rightarrow> nat \<Rightarrow> bool" where
  "valid_date y m d \<longleftrightarrow> 1 \<le> y \<and> 1 \<le> m \<and> m \<le> 12 \<and> 1 \<le> d \<and> d \<le> days_in_month y m"

fun strptime_ymd :: "string \<Rightarrow> (nat \<times> nat \<times> nat) option" where
  "strptime_ymd (y1 # y2 # y3 # y4 # c # rest) =
     (if is_digit y1 \<and> is_digit y2 \<and> is_digit y3 \<and> is_digit y4 \<and> c = CHR ''-''
      then (case match_month rest of
              None \<Rightarrow> None
            | Some (m, rest') \<Rightarrow>
                (case match_day rest' of
                   None \<Rightarrow> None
                 | Some (d, left) \<Rightarrow>
                     (let y = 1000 * digit_value y1 + 100 * digit_value y2 +
                              10 * digit_value y3 + digit_value y4
                      in if left = [] \<and> valid_date y m d then Some (y, m, d) else None)))
      else None)"
| "strptime_ymd s = None"

text \<open>
  The errors of the schema, one kind for each error pydantic reports here, and the two
  ways \<^verbatim>\<open>CRMData(**data)\<close> fails: \<open>data\<close> is no mapping (a \<^verbatim>\<open>TypeError\<close>), or
  the validation error that lists the failing fields with their errors.
\<close>

datatype field_error =
  Field_required
| None_not_allowed
| Str_type_expected
| Min_length nat
| Not_enum_member
| Date_format

datatype schema_error =
  Not_a_mapping
| Validation_error "(string \<times> field_error) list"

text \<open>
  pydantic's validator of a \<^verbatim>\<open>str\<close> field: a string as it is, a number or a
  Boolean through \<^verbatim>\<open>str\<close>, anything else an error.
\<close>

fun str_validator :: "json \<Rightarrow> field_error + string" where
  "str_validator (JString s) = Inr s"
| "str_validator (JNumber t) = Inr t"
| "str_validator (JBool b) = Inr (if b then ''True'' else ''False'')"
| "str_validator v = Inl Str_type_expected"

text \<open>A required \<^verbatim>\<open>str\<close> field with \<^verbatim>\<open>min_length\<close>.\<close>

definition required_str :: "nat \<Rightarrow> json option \<Rightarrow> field_error + string" where
  "required_str min_length v =
     (case v of
        None \<Rightarrow> Inl Field_required
      | Some JNull \<Rightarrow> Inl None_not_allowed
      | Some x \<Rightarrow>
          (case str_validator x of
             Inl e \<Rightarrow> Inl e
           | Inr s \<Rightarrow> if length s < min_length then Inl (Min_length min_length) else Inr s))"

text \<open>A required field of an enumeration: the member whose value the input is.\<close>

definition required_enum :: "(string \<times> 'e) list \<Rightarrow> json option \<Rightarrow> field_error + 'e" where
  "required_enum members v =
     (case v of
        None \<Rightarrow> Inl Field_required
      | Some JNull \<Rightarrow> Inl None_not_allowed
      | Some (JString s) \<Rightarrow>
          (case map_of members s of Some e \<Rightarrow> Inr e | None \<Rightarrow> Inl Not_enum_member)
      | Some x \<Rightarrow> Inl Not_enum_member)"

text \<open>The two class validators of \<^verbatim>\<open>CRMData\<close>, for a value that is not \<^verbatim>\<open>None\<close>.\<close>

definition validate_date_format :: "string \<Rightarrow> field_error + string option" where
  "validate_date_format v =
     (case strptime_ymd v of Some d \<Rightarrow> Inr (Some v) | None \<Rightarrow> Inl Date_format)"

definition clean_objections :: "string \<Rightarrow> field_error + string option" where
  "clean_objections v =
     (if v \<noteq> [] \<and> lower (strip v) \<in> set [''none'', ''n/a'', ''no objections'', []]
      then Inr None else Inr (Some v))"

text \<open>
  An \<^verbatim>\<open>Optional[str]\<close> field with default \<^verbatim>\<open>None\<close> and a class validator, which
  runs on the string the field validator returns; a missing field and \<^verbatim>\<open>null\<close>
  give \<^verbatim>\<open>None\<close>.
\<close>

definition optional_str ::
  "(string \<Rightarrow> field_error + string option) \<Rightarrow> json option \<Rightarrow> field_error + string option"
where
  "optional_str class_validator v =
     (case v of
        None \<Rightarrow> Inr None
      | Some JNull \<Rightarrow> Inr None
      | Some x \<Rightarrow> (case str_validator x of Inl e \<Rightarrow> Inl e | Inr s \<Rightarrow> class_validator s))"

definition field_errors :: "string \<Rightarrow> field_error + 'a \<Rightarrow> (string \<times> field_error) list" where
  "field_errors name r = (case r of Inl e \<Rightarrow> [(name, e)] | Inr x \<Rightarrow> [])"

text \<open>
  \<^verbatim>\<open>CRMData(**data)\<close>: the fields are validated in the order of the class, the
  errors of all of them are collected, and keys the class does not know are ignored.
\<close>

definition CRMData_init :: "json \<Rightarrow> schema_error + CRMData" where
  "CRMData_init data =
     (case data of
        JObject members \<Rightarrow>
          (let v_summary = required_str 10 (map_of members ''summary'');
               v_deal_stage = required_enum DealStage_members (map_of members ''deal_stage'');
               v_objections = optional_str clean_objections (map_of members ''objections'');
               v_interest_level =
                 required_enum InterestLevel_members (map_of members ''interest_level'');
               v_next_action = required_str 5 (map_of members ''next_action'');
               v_followup_date =
                 optional_str validate_date_format (map_of members ''followup_date'');
               errors =
                 field_errors ''summary'' v_summary @ field_errors ''deal_stage'' v_deal_stage @
                 field_errors ''objections'' v_objections @
                 field_errors ''interest_level'' v_interest_level @
                 field_errors ''next_action'' v_next_action @
                 field_errors ''followup_date'' v_followup_date
           in case (v_summary, v_deal_stage, v_objections, v_interest_level, v_next_action,
                    v_followup_date) of
                (Inr s, Inr d, Inr ob, Inr i, Inr n, Inr f) \<Rightarrow>
                  Inr \<lparr>summary = s, deal_stage = d, objections = ob, interest_level = i,
                       next_action = n, followup_date = f\<rparr>
              | _ \<Rightarrow> Inl (Validation_error errors))
      | _ \<Rightarrow> Inl Not_a_mapping)"

text \<open>
  The \<^verbatim>\<open>ValueError\<close>s of the program, by their messages. \<^verbatim>\<open>validate_json_output\<close>
  raises \<^verbatim>\<open>Invalid JSON from AI: ...\<close> for a decoding error and \<^verbatim>\<open>Schema
  validation failed: ...\<close> for any other; \<^verbatim>\<open>extract\<close> raises \<^verbatim>\<open>Unknown provider:
  ...\<close>.
\<close>

datatype value_error =
  Invalid_JSON string
| Schema_validation_failed schema_error
| Unknown_provider string

definition validate_json_output ::
  "(string \<Rightarrow> string + json) \<Rightarrow> string \<Rightarrow> value_error + CRMData"
where
  "validate_json_output json_loads json_str =
     (case json_loads json_str of
        Inl msg \<Rightarrow> Inl (Invalid_JSON msg)
      | Inr data \<Rightarrow>
          (case CRMData_init data of
             Inl e \<Rightarrow> Inl (Schema_validation_failed e)
           | Inr crm \<Rightarrow> Inr crm))"


text \<open>The parts of C3 that hold: what the validator rejects, and with which error.\<close>

lemma required_enum_rejects:
  "\<not> (\<exists>s e. v = Some (JString s) \<and> map_of members s = Some e) \<Longrightarrow>
   \<exists>e. required_enum members v = Inl e"
  by (auto simp: required_enum_def split: option.splits json.splits)

lemma deal_stage_rejected:
  assumes "\<not> (\<exists>s. map_of members ''deal_stage'' = Some (JString s) \<and>
              s \<in> set [''prospecting'', ''qualification'', ''proposal'', ''negotiation'',
                       ''closed_won'', ''closed_lost'', ''nurture''])"
  shows "\<exists>errs. CRMData_init (JObject members) = Inl (Validation_error errs) \<and>
           ''deal_stage'' \<in> fst ` set errs"
proof -
  have "\<not> (\<exists>s e. map_of members ''deal_stage'' = Some (JString s) \<and>
              map_of DealStage_members s = Some e)"
    using assms by (auto simp: DealStage_members_def split: if_splits)
  from required_enum_rejects [OF this]
  obtain e where "required_enum DealStage_members (map_of members ''deal_stage'') = Inl e" ..
  then show ?thesis
    by (auto simp: CRMData_init_def Let_def field_errors_def split: sum.splits)
qed

lemma interest_level_rejected:
  assumes "\<not> (\<exists>s. map_of members ''interest_level'' = Some (JString s) \<and>
              s \<in> set [''hot'', ''warm'', ''cold'', ''neutral''])"
  shows "\<exists>errs. CRMData_init (JObject members) = Inl (Validation_error errs) \<and>
           ''interest_level'' \<in> fst ` set errs"
proof -
  have "\<not> (\<exists>s e. map_of members ''interest_level'' = Some (JString s) \<and>
              map_of InterestLevel_members s = Some e)"
    using assms by (auto simp: InterestLevel_members_def split: if_splits)
  from required_enum_rejects [OF this]
  obtain e where
    "required_enum InterestLevel_members (map_of members ''interest_level'') = Inl e" ..
  then show ?thesis
    by (auto simp: CRMData_init_def Let_def field_errors_def split: sum.splits)
qed

lemma followup_date_rejected:
  assumes "map_of members ''followup_date'' = Some (JString s)" and "strptime_ymd s = None"
  shows "\<exists>errs. CRMData_init (JObject members) = Inl (Validation_error errs) \<and>
           ''followup_date'' \<in> fst ` set errs"
proof -
  have "optional_str validate_date_format (map_of members ''followup_date'') = Inl Date_format"
    using assms by (simp add: optional_str_def validate_date_format_def)
  then show ?thesis
    by (auto simp: CRMData_init_def Let_def field_errors_def split: sum.splits)
qed

lemma malformed_is_invalid_json:
  "json_loads s = Inl msg \<Longrightarrow> validate_json_output json_loads s = Inl (Invalid_JSON msg)"
  by (simp add: validate_json_output_def)

lemma schema_failure_is_not_invalid_json:
  "json_loads s = Inr data \<Longrightarrow> CRMData_init data = Inl e \<Longrightarrow>
   validate_json_output json_loads s = Inl (Schema_validation_failed e)"
  by (simp add: validate_json_output_def)

text \<open>
  A date in the form the claim asks for: four digits, two digits and two digits with
  hyphens between, naming a day of the calendar.
\<close>

definition iso_calendar_date :: "string \<Rightarrow> bool" where
  "iso_calendar_date s \<longleftrightarrow>
     (case s of
        [y1, y2, y3, y4, h1, m1, m2, h2, d1, d2] \<Rightarrow>
          list_all is_digit [y1, y2, y3, y4, m1, m2, d1, d2] \<and> h1 = CHR ''-'' \<and> h2 = CHR ''-'' \<and>
          valid_date
            (1000 * digit_value y1 + 100 * digit_value y2 + 10 * digit_value y3 + digit_value y4)
            (10 * digit_value m1 + digit_value m2) (10 * digit_value d1 + digit_value d2)
      | _ \<Rightarrow> False)"

definition ex_lenient_date :: json where
  "ex_lenient_date =
     JObject
       [(''summary'', JString ''Discussed pricing options in detail''),
        (''deal_stage'', JString ''proposal''), (''interest_level'', JString ''warm''),
        (''next_action'', JString ''Send proposal Friday''),
        (''followup_date'', JString ''2025-3-1'')]"

text \<open>
  C3 at the input with \<open>followup_date\<close> \<open>2025-3-1\<close>: the text is not a date of the
  form YYYY-MM-DD, and the validator accepts it and returns it as the follow-up date.
\<close>

theorem lenient_followup_date_accepted:
  "\<not> iso_calendar_date ''2025-3-1'' \<and>
   CRMData_init ex_lenient_date =
     Inr \<lparr>summary = ''Discussed pricing options in detail'', deal_stage = PROPOSAL,
          objections = None, interest_level = WARM, next_action = ''Send proposal Friday'',
          followup_date = Some ''2025-3-1''\<rparr>"
  by code_simp

section \<open>Normalising the objections\<close>







text \<open>The empty string, which the validator returns as it is.\<close>

lemma empty_objections_kept:
  "CRMData_init
     (JObject
        [(''summary'', JString ''Discussed pricing options in detail''),
         (''deal_stage'', JString ''proposal''), (''objections'', JString []),
         (''interest_level'', JString ''warm''),
         (''next_action'', JString ''Send proposal Friday'')]) =
     Inr \<lparr>summary = ''Discussed pricing options in detail'', deal_stage = PROPOSAL,
          objections = Some [], interest_level = WARM, next_action = ''Send proposal Friday'',
          followup_date = None\<rparr>"
  by code_simp

end
